theory Spec2Isabelle
  imports Main "HOL-Library.Word" "HOL-Library.Multiset"
begin

section \<open>Strings and the library calls of \<^verbatim>\<open>main.cpp\<close>\<close>

text \<open>
  A \<^verbatim>\<open>std::string_view\<close> is a read-only sequence of \<^verbatim>\<open>char\<close>, one byte each:
  a \<^typ>\<open>char list\<close>. Its \<^verbatim>\<open>length()\<close> is the number of bytes, \<^term>\<open>length\<close>.
\<close>

type_synonym string_view = string

text \<open>
  \<^verbatim>\<open>find_first_of(s)\<close> returns the position of the first byte of the view that is equal
  to one of the bytes of \<^verbatim>\<open>s\<close>, and \<^verbatim>\<open>npos\<close> when there is none. The position is a
  \<^typ>\<open>nat\<close> and \<^verbatim>\<open>npos\<close>, which is no position of any view, is \<^term>\<open>None\<close>.
\<close>

abbreviation npos :: "nat option" where
  "npos \<equiv> None"

fun find_first_of_from :: "string_view \<Rightarrow> string \<Rightarrow> nat \<Rightarrow> nat option" where
  "find_first_of_from [] s pos = npos"
| "find_first_of_from (c # cs) s pos =
     (if c \<in> set s then Some pos else find_first_of_from cs s (Suc pos))"

definition find_first_of :: "string_view \<Rightarrow> string \<Rightarrow> nat option" where
  "find_first_of sv s = find_first_of_from sv s 0"

text \<open>
  \<^verbatim>\<open>islower\<close> and \<^verbatim>\<open>isupper\<close> are the functions of \<^verbatim>\<open>ctype.h\<close>, which take an
  \<^verbatim>\<open>int\<close>. The byte \<^verbatim>\<open>password[i]\<close> is a \<^verbatim>\<open>char\<close> and is promoted to \<^verbatim>\<open>int\<close>:
  with a signed \<^verbatim>\<open>char\<close> the bytes from 128 on become the negative numbers from -128 to -1.
  The program never calls \<^verbatim>\<open>setlocale\<close>, so the classification is the one of the
  \<^verbatim>\<open>"C"\<close> locale: lowercase is the 26 codes from 97 (a) to 122 (z), uppercase the 26
  codes from 65 (A) to 90 (Z), and every other number, the negative ones included, is
  neither. An unsigned \<^verbatim>\<open>char\<close> would give the numbers from 128 to 255 instead, which
  are neither as well.
\<close>

definition char_to_int :: "char \<Rightarrow> int" where
  "char_to_int c = (let n = of_char c :: nat in if n < 128 then int n else int n - 256)"

definition islower :: "int \<Rightarrow> bool" where
  "islower c = (97 \<le> c \<and> c \<le> 122)"

definition isupper :: "int \<Rightarrow> bool" where
  "isupper c = (65 \<le> c \<and> c \<le> 90)"

section \<open>The validators\<close>

text \<open>
  \<^verbatim>\<open>PasswordValidator\<close> is an abstract class with the one virtual member function
  \<^verbatim>\<open>Validate\<close>. No class of the program has mutable state and no \<^verbatim>\<open>Validate\<close> has an
  effect, so an object is what its \<^verbatim>\<open>Validate\<close> computes: a predicate on string views.
  Each class below is its constructor: it takes the fields and gives the object's
  \<^verbatim>\<open>Validate\<close>.
\<close>

type_synonym PasswordValidator = "string_view \<Rightarrow> bool"

text \<open>
  \<^verbatim>\<open>LengthValidator\<close>: the field \<^verbatim>\<open>length_\<close> is an \<^verbatim>\<open>unsigned int\<close>, 32 bits; the
  comparison is made in \<^verbatim>\<open>size_t\<close>, to which the field converts without loss.
\<close>

definition LengthValidator :: "32 word \<Rightarrow> PasswordValidator" where
  "LengthValidator min_length password = (length password \<ge> unat min_length)"

definition PasswordValidatorDecorator :: "PasswordValidator \<Rightarrow> PasswordValidator" where
  "PasswordValidatorDecorator inner password = inner password"

definition DigitPasswordValidator :: "PasswordValidator \<Rightarrow> PasswordValidator" where
  "DigitPasswordValidator inner password =
     (if \<not> PasswordValidatorDecorator inner password then False
      else find_first_of password ''0123456789'' \<noteq> npos)"

text \<open>
  The loop of \<^verbatim>\<open>CasePasswordValidator::Validate\<close>, from index \<open>i\<close> with the two flags;
  it returns the flags \<open>(has_lower, has_upper)\<close> at the loop's exit.
\<close>

function case_loop :: "string_view \<Rightarrow> nat \<Rightarrow> bool \<Rightarrow> bool \<Rightarrow> bool \<times> bool" where
  "case_loop password i has_lower has_upper =
     (if i < length password \<and> \<not> (has_upper \<and> has_lower) then
        (if islower (char_to_int (password ! i)) then
           case_loop password (i + 1) True has_upper
         else if isupper (char_to_int (password ! i)) then
           case_loop password (i + 1) has_lower True
         else
           case_loop password (i + 1) has_lower has_upper)
      else (has_lower, has_upper))"
  by pat_completeness auto
termination
  by (relation "measure (\<lambda>(password, i, has_lower, has_upper). length password - i)") auto

declare case_loop.simps [simp del]

definition CasePasswordValidator :: "PasswordValidator \<Rightarrow> PasswordValidator" where
  "CasePasswordValidator inner password =
     (if \<not> PasswordValidatorDecorator inner password then False
      else (case case_loop password 0 False False of
              (has_lower, has_upper) \<Rightarrow> has_lower \<and> has_upper))"

definition SymbolPasswordValidator :: "PasswordValidator \<Rightarrow> PasswordValidator" where
  "SymbolPasswordValidator inner password =
     (if \<not> PasswordValidatorDecorator inner password then False
      else find_first_of password ''!@#$%^&*(){}[]?<>'' \<noteq> npos)"

section \<open>The calls of a digit validation\<close>

text \<open>
  \<^verbatim>\<open>DigitPasswordValidator::Validate\<close> once more, with the calls its body makes
  recorded in the order in which it makes them: the call of the inner validator through
  \<^verbatim>\<open>PasswordValidatorDecorator::Validate\<close>, and the call of \<^verbatim>\<open>find_first_of\<close>. The
  early \<^verbatim>\<open>return false\<close> leaves the body before the second call.
\<close>

datatype call = Call_inner_Validate | Call_find_first_of

definition DigitPasswordValidator_calls ::
    "PasswordValidator \<Rightarrow> string_view \<Rightarrow> call list \<times> bool" where
  "DigitPasswordValidator_calls inner password =
     (if \<not> PasswordValidatorDecorator inner password then ([Call_inner_Validate], False)
      else ([Call_inner_Validate, Call_find_first_of],
            find_first_of password ''0123456789'' \<noteq> npos))"

section \<open>Chains of decorators\<close>

text \<open>
  The four classes that wrap an inner validator, and the expression
  \<^verbatim>\<open>make_unique<D1>(make_unique<D2>(... make_unique<Dn>(base)))\<close> that builds a chain
  of them over a base validator, as \<^verbatim>\<open>main\<close> writes it.
\<close>

datatype decorator = BareDecorator | DigitRule | CaseRule | SymbolRule

fun decorate :: "decorator \<Rightarrow> PasswordValidator \<Rightarrow> PasswordValidator" where
  "decorate BareDecorator inner = PasswordValidatorDecorator inner"
| "decorate DigitRule inner = DigitPasswordValidator inner"
| "decorate CaseRule inner = CasePasswordValidator inner"
| "decorate SymbolRule inner = SymbolPasswordValidator inner"

definition chain :: "decorator list \<Rightarrow> PasswordValidator \<Rightarrow> PasswordValidator" where
  "chain ds base = foldr decorate ds base"

text \<open>
  The check a decorator makes itself: what its \<^verbatim>\<open>Validate\<close> returns once the inner
  validator has accepted. The bare decorator makes none.
\<close>

fun localCheck :: "decorator \<Rightarrow> string_view \<Rightarrow> bool" where
  "localCheck BareDecorator password = True"
| "localCheck DigitRule password = (find_first_of password ''0123456789'' \<noteq> npos)"
| "localCheck CaseRule password =
     (case case_loop password 0 False False of
        (has_lower, has_upper) \<Rightarrow> has_lower \<and> has_upper)"
| "localCheck SymbolRule password = (find_first_of password ''!@#$%^&*(){}[]?<>'' \<noteq> npos)"

section \<open>Lemmas\<close>

subsection \<open>The library calls\<close>

lemma find_first_of_from_npos:
  "find_first_of_from sv s pos = npos \<longleftrightarrow> (\<forall>c \<in> set sv. c \<notin> set s)"
  by (induction sv arbitrary: pos) auto

lemma find_first_of_found:
  "find_first_of sv s \<noteq> npos \<longleftrightarrow> (\<exists>c \<in> set sv. c \<in> set s)"
  by (simp add: find_first_of_def find_first_of_from_npos)

lemma char_to_int_range:
  assumes "0 \<le> l" "l \<le> h" "h \<le> 127"
  shows "(l \<le> char_to_int c \<and> char_to_int c \<le> h)
           \<longleftrightarrow> (nat l \<le> of_char c \<and> of_char c \<le> nat h)"
proof -
  define n :: nat where "n = of_char c"
  have "n < 256" by (simp add: n_def)
  with assms have "(l \<le> (if n < 128 then int n else int n - 256)
        \<and> (if n < 128 then int n else int n - 256) \<le> h)
      \<longleftrightarrow> (nat l \<le> n \<and> n \<le> nat h)"
    by (cases "n < 128") auto
  then show ?thesis unfolding char_to_int_def Let_def n_def .
qed

lemma lower_codes:
  "(97 \<le> (of_char c :: nat) \<and> (of_char c :: nat) \<le> 122)
     \<longleftrightarrow> c \<in> set ''abcdefghijklmnopqrstuvwxyz''"
  (is "?L = ?R")
proof
  assume ?R then show ?L by auto
next
  assume L: ?L
  then have "of_char c \<in> {97..<(123::nat)}" by simp
  then have "of_char c \<in> set [97..<(123::nat)]" by (simp only: set_upt)
  then have "char_of (of_char c :: nat) \<in> char_of ` set [97..<(123::nat)]" by (rule imageI)
  then have "c \<in> set (map char_of [97..<(123::nat)])" by (simp only: set_map char_of_char)
  also have "map char_of [97..<(123::nat)] = ''abcdefghijklmnopqrstuvwxyz''"
    by code_simp
  finally show ?R .
qed

lemma upper_codes:
  "(65 \<le> (of_char c :: nat) \<and> (of_char c :: nat) \<le> 90)
     \<longleftrightarrow> c \<in> set ''ABCDEFGHIJKLMNOPQRSTUVWXYZ''"
  (is "?L = ?R")
proof
  assume ?R then show ?L by auto
next
  assume L: ?L
  then have "of_char c \<in> {65..<(91::nat)}" by simp
  then have "of_char c \<in> set [65..<(91::nat)]" by (simp only: set_upt)
  then have "char_of (of_char c :: nat) \<in> char_of ` set [65..<(91::nat)]" by (rule imageI)
  then have "c \<in> set (map char_of [65..<(91::nat)])" by (simp only: set_map char_of_char)
  also have "map char_of [65..<(91::nat)] = ''ABCDEFGHIJKLMNOPQRSTUVWXYZ''"
    by code_simp
  finally show ?R .
qed

lemma islower_iff: "islower (char_to_int c) \<longleftrightarrow> c \<in> set ''abcdefghijklmnopqrstuvwxyz''"
  unfolding islower_def using char_to_int_range [of 97 122 c] lower_codes [of c] by simp

lemma isupper_iff: "isupper (char_to_int c) \<longleftrightarrow> c \<in> set ''ABCDEFGHIJKLMNOPQRSTUVWXYZ''"
  unfolding isupper_def using char_to_int_range [of 65 90 c] upper_codes [of c] by simp

lemma islower_not_isupper: "islower k \<Longrightarrow> \<not> isupper k"
  by (simp add: islower_def isupper_def)

lemma ex_from_split:
  "(\<exists>j. i \<le> j \<and> j < n \<and> P j) \<longleftrightarrow> (i < n \<and> P i) \<or> (\<exists>j. Suc i \<le> j \<and> j < n \<and> P j)"
  by (metis Suc_leI le_eq_less_or_eq order_less_le_trans Suc_le_lessD less_or_eq_imp_le)

lemma case_loop_flags:
  "case_loop p i hl hu =
     (hl \<or> (\<exists>j. i \<le> j \<and> j < length p \<and> islower (char_to_int (p ! j))),
      hu \<or> (\<exists>j. i \<le> j \<and> j < length p \<and> isupper (char_to_int (p ! j))))"
proof (induction p i hl hu rule: case_loop.induct)
  case (1 password i has_lower has_upper)
  let ?L = "\<lambda>j. islower (char_to_int (password ! j))"
  let ?U = "\<lambda>j. isupper (char_to_int (password ! j))"
  note splitL = ex_from_split [of i "length password" ?L]
  note splitU = ex_from_split [of i "length password" ?U]
  show ?case
  proof (cases "i < length password \<and> \<not> (has_upper \<and> has_lower)")
    case False
    then show ?thesis
      by (subst case_loop.simps) auto
  next
    case run: True
    show ?thesis
    proof (cases "?L i")
      case True
      with run "1.IH"(1) splitL splitU islower_not_isupper show ?thesis
        by (subst case_loop.simps) auto
    next
      case notL: False
      show ?thesis
      proof (cases "?U i")
        case True
        with run notL "1.IH"(2) splitL splitU show ?thesis
          by (subst case_loop.simps) auto
      next
        case False
        with run notL "1.IH"(3) splitL splitU show ?thesis
          by (subst case_loop.simps) auto
      qed
    qed
  qed
qed

lemma bex_set_nth: "(\<exists>c \<in> set p. P c) \<longleftrightarrow> (\<exists>j < length p. P (p ! j))"
  by (metis in_set_conv_nth)

lemma case_loop_0:
  "case_loop p 0 False False =
     ((\<exists>c \<in> set p. islower (char_to_int c)), (\<exists>c \<in> set p. isupper (char_to_int c)))"
  by (simp add: case_loop_flags bex_set_nth)

subsection \<open>The decorators as conjunctions\<close>

lemma Digit_iff:
  "DigitPasswordValidator V p \<longleftrightarrow> V p \<and> (\<exists>c \<in> set p. c \<in> set ''0123456789'')"
  unfolding DigitPasswordValidator_def PasswordValidatorDecorator_def
  by (simp only: find_first_of_found split: if_split) blast

lemma Symbol_iff:
  "SymbolPasswordValidator V p \<longleftrightarrow> V p \<and> (\<exists>c \<in> set p. c \<in> set ''!@#$%^&*(){}[]?<>'')"
  unfolding SymbolPasswordValidator_def PasswordValidatorDecorator_def
  by (simp only: find_first_of_found split: if_split) blast

lemma case_loop_letters:
  "case_loop p 0 False False =
     ((\<exists>c \<in> set p. c \<in> set ''abcdefghijklmnopqrstuvwxyz''),
      (\<exists>c \<in> set p. c \<in> set ''ABCDEFGHIJKLMNOPQRSTUVWXYZ''))"
  by (simp only: case_loop_0 islower_iff isupper_iff)

lemma Case_iff:
  "CasePasswordValidator V p \<longleftrightarrow>
     V p \<and> (\<exists>c \<in> set p. c \<in> set ''abcdefghijklmnopqrstuvwxyz'')
         \<and> (\<exists>c \<in> set p. c \<in> set ''ABCDEFGHIJKLMNOPQRSTUVWXYZ'')"
  unfolding CasePasswordValidator_def PasswordValidatorDecorator_def
  by (simp only: case_loop_letters prod.case split: if_split) blast

lemma decorate_conj: "decorate d V p \<longleftrightarrow> V p \<and> localCheck d p"
  by (cases d)
     (simp_all add: PasswordValidatorDecorator_def DigitPasswordValidator_def
        CasePasswordValidator_def SymbolPasswordValidator_def)

lemma chain_conj: "chain ds V p \<longleftrightarrow> V p \<and> (\<forall>d \<in> set ds. localCheck d p)"
  unfolding chain_def
  by (induction ds) (auto simp: decorate_conj)

lemma LengthValidator_8_accepts: "LengthValidator 8 ''Abc123!@#''"
  by (simp add: LengthValidator_def)

section \<open>Properties of the validators\<close>

text \<open>
  C1. \<^verbatim>\<open>CasePasswordValidator(V).Validate(p)\<close> is true exactly when \<open>V\<close> accepts \<open>p\<close>
  and \<open>p\<close> has at least one of the letters a to z and at least one of the letters A to Z.
  The flag \<open>has_lower\<close> at the end of the loop says that \<open>p\<close> has a lowercase letter and
  \<open>has_upper\<close> that it has an uppercase letter, so no other byte sets a flag; and two
  passwords with the same set of bytes, whatever the positions and the counts, that the
  inner validator treats alike get the same answer.
\<close>

theorem C1_case_rule:
  "(CasePasswordValidator V p \<longleftrightarrow>
      V p \<and> (\<exists>c \<in> set p. c \<in> set ''abcdefghijklmnopqrstuvwxyz'')
          \<and> (\<exists>c \<in> set p. c \<in> set ''ABCDEFGHIJKLMNOPQRSTUVWXYZ''))
   \<and> case_loop p 0 False False =
       ((\<exists>c \<in> set p. c \<in> set ''abcdefghijklmnopqrstuvwxyz''),
        (\<exists>c \<in> set p. c \<in> set ''ABCDEFGHIJKLMNOPQRSTUVWXYZ''))
   \<and> (V p = V q \<and> set p = set q \<longrightarrow>
        CasePasswordValidator V p = CasePasswordValidator V q)"
proof (intro conjI impI)
  show "case_loop p 0 False False =
       ((\<exists>c \<in> set p. c \<in> set ''abcdefghijklmnopqrstuvwxyz''),
        (\<exists>c \<in> set p. c \<in> set ''ABCDEFGHIJKLMNOPQRSTUVWXYZ''))"
    by (rule case_loop_letters)
next
  show "CasePasswordValidator V p \<longleftrightarrow>
      V p \<and> (\<exists>c \<in> set p. c \<in> set ''abcdefghijklmnopqrstuvwxyz'')
          \<and> (\<exists>c \<in> set p. c \<in> set ''ABCDEFGHIJKLMNOPQRSTUVWXYZ'')"
    by (rule Case_iff)
next
  assume "V p = V q \<and> set p = set q"
  then show "CasePasswordValidator V p = CasePasswordValidator V q"
    by (simp only: Case_iff)
qed

theorem C1_case_rule_witness:
  "CasePasswordValidator (LengthValidator 8) ''Abc123!@#''
   \<and> case_loop ''Abc123!@#'' 0 False False = (True, True)
   \<and> LengthValidator 8 ''Abc123!@#'' = LengthValidator 8 ''#@!321cbAA''
   \<and> set ''Abc123!@#'' = set ''#@!321cbAA''
   \<and> CasePasswordValidator (LengthValidator 8) ''#@!321cbAA''"
proof -
  have same: "LengthValidator 8 ''Abc123!@#'' = LengthValidator 8 ''#@!321cbAA''
      \<and> set ''Abc123!@#'' = set ''#@!321cbAA''"
    by (auto simp: LengthValidator_def)
  have lower: "\<exists>c \<in> set ''Abc123!@#''. c \<in> set ''abcdefghijklmnopqrstuvwxyz''"
    by simp
  have upper: "\<exists>c \<in> set ''Abc123!@#''. c \<in> set ''ABCDEFGHIJKLMNOPQRSTUVWXYZ''"
    by simp
  note at_input = C1_case_rule [of "LengthValidator 8" "''Abc123!@#''" "''#@!321cbAA''"]
  from at_input lower upper LengthValidator_8_accepts
  have accepted: "CasePasswordValidator (LengthValidator 8) ''Abc123!@#''"
    by blast
  from at_input lower upper
  have flags: "case_loop ''Abc123!@#'' 0 False False = (True, True)"
    by (simp only: simp_thms)
  from at_input same accepted
  have "CasePasswordValidator (LengthValidator 8) ''#@!321cbAA''"
    by blast
  with accepted flags same show ?thesis by blast
qed

text \<open>
  C2. \<^verbatim>\<open>SymbolPasswordValidator(V).Validate(p)\<close> is true exactly when \<open>V\<close> accepts \<open>p\<close>
  and \<open>p\<close> has at least one byte of the literal of the source, which has 17 bytes, all
  different. The bytes \<^verbatim>\<open>_ + ~ - =\<close> are not among them: a password made of these
  alone is rejected.
\<close>

theorem C2_symbol_rule:
  "(SymbolPasswordValidator V p \<longleftrightarrow>
      V p \<and> (\<exists>c \<in> set p. c \<in> set ''!@#$%^&*(){}[]?<>''))
   \<and> distinct ''!@#$%^&*(){}[]?<>'' \<and> length ''!@#$%^&*(){}[]?<>'' = 17
   \<and> (set p \<subseteq> set ''_+~-='' \<longrightarrow> \<not> SymbolPasswordValidator V p)"
proof (intro conjI impI)
  show "SymbolPasswordValidator V p \<longleftrightarrow>
      V p \<and> (\<exists>c \<in> set p. c \<in> set ''!@#$%^&*(){}[]?<>'')"
    by (rule Symbol_iff)
next
  show "distinct ''!@#$%^&*(){}[]?<>''" by simp
next
  show "length ''!@#$%^&*(){}[]?<>'' = 17" by simp
next
  assume sub: "set p \<subseteq> set ''_+~-=''"
  have "set ''_+~-='' \<inter> set ''!@#$%^&*(){}[]?<>'' = {}" by simp
  with sub have "\<not> (\<exists>c \<in> set p. c \<in> set ''!@#$%^&*(){}[]?<>'')" by blast
  then show "\<not> SymbolPasswordValidator V p"
    by (simp only: Symbol_iff simp_thms)
qed

theorem C2_symbol_rule_witness:
  "set ''_+~-='' \<subseteq> set ''_+~-=''
   \<and> \<not> SymbolPasswordValidator (LengthValidator 0) ''_+~-=''
   \<and> SymbolPasswordValidator (LengthValidator 0) ''hello?''"
proof -
  have sym: "\<exists>c \<in> set ''hello?''. c \<in> set ''!@#$%^&*(){}[]?<>''" by simp
  have len: "LengthValidator 0 ''hello?''" by (simp add: LengthValidator_def)
  from C2_symbol_rule [of "LengthValidator 0" "''_+~-=''"]
    C2_symbol_rule [of "LengthValidator 0" "''hello?''"] sym len
  show ?thesis by blast
qed

text \<open>
  C3. \<^verbatim>\<open>LengthValidator(min).Validate(p)\<close> is true exactly when the number of bytes of
  \<open>p\<close> is at least \<open>min\<close>; a password of exactly \<open>min\<close> bytes is accepted, and
  \<^verbatim>\<open>LengthValidator(0)\<close> accepts every password, the empty one included.
\<close>

theorem C3_length_rule:
  "(LengthValidator min_length p \<longleftrightarrow> length p \<ge> unat min_length)
   \<and> (length p = unat min_length \<longrightarrow> LengthValidator min_length p)
   \<and> LengthValidator 0 p
   \<and> LengthValidator 0 []"
  by (simp add: LengthValidator_def)

theorem C3_length_rule_witness:
  "length ''abc123!@'' = unat (8 :: 32 word) \<and> LengthValidator 8 ''abc123!@''
   \<and> \<not> LengthValidator 8 ''abc123'' \<and> \<not> length ''abc123'' \<ge> unat (8 :: 32 word)"
  using C3_length_rule [of 8 "''abc123!@''"] C3_length_rule [of 8 "''abc123''"]
  by simp

text \<open>
  C4. \<^verbatim>\<open>DigitPasswordValidator(V).Validate(p)\<close> is true exactly when \<open>V\<close> accepts \<open>p\<close>
  and \<open>p\<close> has at least one of the bytes 0 to 9. The body calls the inner validator
  first, and calls \<^verbatim>\<open>find_first_of\<close> after it only when the inner validator has
  accepted; the body with its calls recorded returns what the body returns.
\<close>

theorem C4_digit_rule:
  "(DigitPasswordValidator V p \<longleftrightarrow> V p \<and> (\<exists>c \<in> set p. c \<in> set ''0123456789''))
   \<and> snd (DigitPasswordValidator_calls V p) = DigitPasswordValidator V p
   \<and> fst (DigitPasswordValidator_calls V p) =
       (if V p then [Call_inner_Validate, Call_find_first_of] else [Call_inner_Validate])
   \<and> (\<not> V p \<longrightarrow> Call_find_first_of \<notin> set (fst (DigitPasswordValidator_calls V p)))"
proof (intro conjI impI)
  show "DigitPasswordValidator V p \<longleftrightarrow> V p \<and> (\<exists>c \<in> set p. c \<in> set ''0123456789'')"
    by (rule Digit_iff)
next
  show "snd (DigitPasswordValidator_calls V p) = DigitPasswordValidator V p"
    by (simp add: DigitPasswordValidator_calls_def DigitPasswordValidator_def)
next
  show "fst (DigitPasswordValidator_calls V p) =
       (if V p then [Call_inner_Validate, Call_find_first_of] else [Call_inner_Validate])"
    by (simp add: DigitPasswordValidator_calls_def PasswordValidatorDecorator_def)
next
  assume "\<not> V p"
  then show "Call_find_first_of \<notin> set (fst (DigitPasswordValidator_calls V p))"
    by (simp add: DigitPasswordValidator_calls_def PasswordValidatorDecorator_def)
qed

theorem C4_digit_rule_witness:
  "\<not> LengthValidator 8 ''abc123''
   \<and> Call_find_first_of \<notin> set (fst (DigitPasswordValidator_calls (LengthValidator 8) ''abc123''))
   \<and> \<not> DigitPasswordValidator (LengthValidator 8) ''abc123''
   \<and> DigitPasswordValidator (LengthValidator 8) ''Abc123!@#''
   \<and> fst (DigitPasswordValidator_calls (LengthValidator 8) ''Abc123!@#'') =
       [Call_inner_Validate, Call_find_first_of]"
proof -
  have short: "\<not> LengthValidator 8 ''abc123''" by (simp add: LengthValidator_def)
  have digit: "\<exists>c \<in> set ''Abc123!@#''. c \<in> set ''0123456789''" by simp
  from C4_digit_rule [of "LengthValidator 8" "''abc123''"]
    C4_digit_rule [of "LengthValidator 8" "''Abc123!@#''"]
    short digit LengthValidator_8_accepts
  show ?thesis by simp
qed

text \<open>
  C5. For each of the three decorators, \<^verbatim>\<open>Decorator(V).Validate(p)\<close> is the conjunction
  of \<^verbatim>\<open>V.Validate(p)\<close> and the decorator's own check of \<open>p\<close>, which does not depend on
  \<open>V\<close>: a digit, a lowercase and an uppercase letter, a symbol.
\<close>

theorem C5_conjunction:
  "DigitPasswordValidator V p = (V p \<and> localCheck DigitRule p)
   \<and> CasePasswordValidator V p = (V p \<and> localCheck CaseRule p)
   \<and> SymbolPasswordValidator V p = (V p \<and> localCheck SymbolRule p)
   \<and> (localCheck DigitRule p \<longleftrightarrow> (\<exists>c \<in> set p. c \<in> set ''0123456789''))
   \<and> (localCheck CaseRule p \<longleftrightarrow>
        (\<exists>c \<in> set p. c \<in> set ''abcdefghijklmnopqrstuvwxyz'')
        \<and> (\<exists>c \<in> set p. c \<in> set ''ABCDEFGHIJKLMNOPQRSTUVWXYZ''))
   \<and> (localCheck SymbolRule p \<longleftrightarrow> (\<exists>c \<in> set p. c \<in> set ''!@#$%^&*(){}[]?<>''))"
proof (intro conjI)
  show "DigitPasswordValidator V p = (V p \<and> localCheck DigitRule p)"
    using decorate_conj [of DigitRule V p] by simp
  show "CasePasswordValidator V p = (V p \<and> localCheck CaseRule p)"
    using decorate_conj [of CaseRule V p] by simp
  show "SymbolPasswordValidator V p = (V p \<and> localCheck SymbolRule p)"
    using decorate_conj [of SymbolRule V p] by simp
  show "localCheck DigitRule p \<longleftrightarrow> (\<exists>c \<in> set p. c \<in> set ''0123456789'')"
    by (simp only: localCheck.simps find_first_of_found)
  show "localCheck CaseRule p \<longleftrightarrow>
        (\<exists>c \<in> set p. c \<in> set ''abcdefghijklmnopqrstuvwxyz'')
        \<and> (\<exists>c \<in> set p. c \<in> set ''ABCDEFGHIJKLMNOPQRSTUVWXYZ'')"
    by (simp only: localCheck.simps case_loop_letters prod.case)
  show "localCheck SymbolRule p \<longleftrightarrow> (\<exists>c \<in> set p. c \<in> set ''!@#$%^&*(){}[]?<>'')"
    by (simp only: localCheck.simps find_first_of_found)
qed

theorem C5_conjunction_witness:
  "DigitPasswordValidator (LengthValidator 8) ''Abc123!@#''
   \<and> CasePasswordValidator (LengthValidator 8) ''Abc123!@#''
   \<and> SymbolPasswordValidator (LengthValidator 8) ''Abc123!@#''
   \<and> localCheck DigitRule ''Abc123!@#'' \<and> localCheck CaseRule ''Abc123!@#''
   \<and> localCheck SymbolRule ''Abc123!@#''"
proof -
  have digit: "\<exists>c \<in> set ''Abc123!@#''. c \<in> set ''0123456789''" by simp
  have lower: "\<exists>c \<in> set ''Abc123!@#''. c \<in> set ''abcdefghijklmnopqrstuvwxyz''" by simp
  have upper: "\<exists>c \<in> set ''Abc123!@#''. c \<in> set ''ABCDEFGHIJKLMNOPQRSTUVWXYZ''" by simp
  have symbol: "\<exists>c \<in> set ''Abc123!@#''. c \<in> set ''!@#$%^&*(){}[]?<>''" by simp
  from C5_conjunction [of "LengthValidator 8" "''Abc123!@#''"]
    digit lower upper symbol LengthValidator_8_accepts
  show ?thesis by (simp only: simp_thms)
qed

text \<open>
  C6. Two chains built from the same multiset of decorators over the same
  \<^verbatim>\<open>LengthValidator\<close> return the same boolean on every password: the order of nesting
  does not change the result.
\<close>

theorem C6_order_irrelevant:
  assumes "mset ds = mset ds'"
  shows "chain ds (LengthValidator min_length) p = chain ds' (LengthValidator min_length) p"
proof -
  from assms have "set ds = set ds'" by (rule mset_eq_setD)
  then show ?thesis by (simp only: chain_conj)
qed

theorem C6_order_irrelevant_witness:
  "mset [SymbolRule, CaseRule, DigitRule] = mset [DigitRule, SymbolRule, CaseRule]
   \<and> chain [SymbolRule, CaseRule, DigitRule] (LengthValidator 8) ''Abc123567''
     = chain [DigitRule, SymbolRule, CaseRule] (LengthValidator 8) ''Abc123567''
   \<and> SymbolPasswordValidator (CasePasswordValidator (DigitPasswordValidator
        (LengthValidator 8))) ''Abc123567''
     = DigitPasswordValidator (SymbolPasswordValidator (CasePasswordValidator
        (LengthValidator 8))) ''Abc123567''"
proof -
  have m: "mset [SymbolRule, CaseRule, DigitRule] = mset [DigitRule, SymbolRule, CaseRule]"
    by simp
  from C6_order_irrelevant [OF m, of 8 "''Abc123567''"] m
  show ?thesis by (simp add: chain_def)
qed

text \<open>
  C7. If \<^verbatim>\<open>D(V).Validate(p)\<close> is true for a decorator \<open>D\<close>, then \<^verbatim>\<open>V.Validate(p)\<close>
  is true; and a password accepted by a chain is accepted by the chain with one
  decorator removed, wherever it stood.
\<close>

theorem C7_weakening:
  "(DigitPasswordValidator V p \<longrightarrow> V p)
   \<and> (CasePasswordValidator V p \<longrightarrow> V p)
   \<and> (SymbolPasswordValidator V p \<longrightarrow> V p)
   \<and> (chain (ds1 @ d # ds2) V p \<longrightarrow> chain (ds1 @ ds2) V p)"
proof (intro conjI impI)
  assume "DigitPasswordValidator V p"
  then show "V p" using decorate_conj [of DigitRule V p] by simp
next
  assume "CasePasswordValidator V p"
  then show "V p" using decorate_conj [of CaseRule V p] by simp
next
  assume "SymbolPasswordValidator V p"
  then show "V p" using decorate_conj [of SymbolRule V p] by simp
next
  assume "chain (ds1 @ d # ds2) V p"
  then show "chain (ds1 @ ds2) V p" by (simp add: chain_conj)
qed

theorem C7_weakening_witness:
  "DigitPasswordValidator (LengthValidator 8) ''Abc123!@#''
   \<and> CasePasswordValidator (LengthValidator 8) ''Abc123!@#''
   \<and> SymbolPasswordValidator (LengthValidator 8) ''Abc123!@#''
   \<and> chain ([SymbolRule] @ CaseRule # [DigitRule]) (LengthValidator 8) ''Abc123!@#''
   \<and> LengthValidator 8 ''Abc123!@#''
   \<and> chain ([SymbolRule] @ [DigitRule]) (LengthValidator 8) ''Abc123!@#''"
proof -
  have d: "DigitPasswordValidator (LengthValidator 8) ''Abc123!@#''" by code_simp
  have c: "CasePasswordValidator (LengthValidator 8) ''Abc123!@#''" by code_simp
  have s: "SymbolPasswordValidator (LengthValidator 8) ''Abc123!@#''" by code_simp
  have ch: "chain ([SymbolRule] @ CaseRule # [DigitRule]) (LengthValidator 8) ''Abc123!@#''"
    by code_simp
  from C7_weakening [of "LengthValidator 8" "''Abc123!@#''" "[SymbolRule]" CaseRule "[DigitRule]"]
    d c s ch
  show ?thesis by (simp only: simp_thms)
qed

text \<open>
  C8. The scenarios: the chain of all three decorators over \<^verbatim>\<open>LengthValidator(8)\<close>
  accepts \<^verbatim>\<open>Abc123!@#\<close> and rejects \<^verbatim>\<open>Abc123567\<close>; \<^verbatim>\<open>LengthValidator(0)\<close> accepts the
  empty string; the symbol decorator over \<^verbatim>\<open>LengthValidator(0)\<close> rejects
  \<^verbatim>\<open>hello_world+\<close> and accepts \<^verbatim>\<open>hello?\<close>.
\<close>

theorem C8_scenarios:
  "SymbolPasswordValidator (CasePasswordValidator (DigitPasswordValidator
      (LengthValidator 8))) ''Abc123!@#''
   \<and> \<not> SymbolPasswordValidator (CasePasswordValidator (DigitPasswordValidator
      (LengthValidator 8))) ''Abc123567''
   \<and> LengthValidator 0 []
   \<and> \<not> SymbolPasswordValidator (LengthValidator 0) ''hello_world+''
   \<and> SymbolPasswordValidator (LengthValidator 0) ''hello?''"
  by code_simp

text \<open>
  C9. A bare \<^verbatim>\<open>PasswordValidatorDecorator\<close> over \<open>V\<close> returns what \<open>V\<close> returns: it adds
  no check, and a chain with a bare decorator in it returns what the chain without it
  returns.
\<close>

theorem C9_bare_decorator:
  "PasswordValidatorDecorator V p = V p
   \<and> PasswordValidatorDecorator V = V
   \<and> chain (ds1 @ BareDecorator # ds2) V p = chain (ds1 @ ds2) V p"
proof (intro conjI)
  show "PasswordValidatorDecorator V p = V p"
    by (simp add: PasswordValidatorDecorator_def)
  show "PasswordValidatorDecorator V = V"
    by (rule ext) (simp add: PasswordValidatorDecorator_def)
  show "chain (ds1 @ BareDecorator # ds2) V p = chain (ds1 @ ds2) V p"
    by (simp add: chain_conj)
qed

theorem C9_bare_decorator_witness:
  "PasswordValidatorDecorator (LengthValidator 8) ''abc123!@#''
   \<and> \<not> PasswordValidatorDecorator (LengthValidator 8) ''abc123''
   \<and> chain ([DigitRule] @ BareDecorator # []) (LengthValidator 8) ''abc123!@#''"
proof -
  have a: "LengthValidator 8 ''abc123!@#''" by (simp add: LengthValidator_def)
  have b: "\<not> LengthValidator 8 ''abc123''" by (simp add: LengthValidator_def)
  have c: "chain ([DigitRule] @ []) (LengthValidator 8) ''abc123!@#''" by code_simp
  from C9_bare_decorator [of "LengthValidator 8" "''abc123!@#''" "[DigitRule]" "[]"]
    C9_bare_decorator [of "LengthValidator 8" "''abc123''" "[]" "[]"] a b c
  show ?thesis by (simp only: simp_thms)
qed

text \<open>
  C10. Each of the three decorators rejects the empty string whatever the inner
  validator, and so does every chain that has one of the three in it, whatever the
  other decorators and the base.
\<close>

theorem C10_empty_password:
  "\<not> DigitPasswordValidator V []
   \<and> \<not> CasePasswordValidator V []
   \<and> \<not> SymbolPasswordValidator V []
   \<and> (d \<in> set ds \<and> d \<noteq> BareDecorator \<longrightarrow> \<not> chain ds V [])"
proof (intro conjI impI)
  show "\<not> DigitPasswordValidator V []" by (simp add: Digit_iff)
  show "\<not> CasePasswordValidator V []" by (simp add: Case_iff)
  show "\<not> SymbolPasswordValidator V []" by (simp add: Symbol_iff)
next
  assume a: "d \<in> set ds \<and> d \<noteq> BareDecorator"
  have "\<not> localCheck d []"
  proof (cases d)
    case BareDecorator
    with a show ?thesis by simp
  next
    case DigitRule
    then show ?thesis by (simp add: find_first_of_def)
  next
    case CaseRule
    then show ?thesis by (simp add: case_loop.simps)
  next
    case SymbolRule
    then show ?thesis by (simp add: find_first_of_def)
  qed
  with a show "\<not> chain ds V []" by (auto simp: chain_conj)
qed

theorem C10_empty_password_witness:
  "CaseRule \<in> set [BareDecorator, CaseRule] \<and> CaseRule \<noteq> BareDecorator
   \<and> LengthValidator 0 []
   \<and> \<not> chain [BareDecorator, CaseRule] (LengthValidator 0) []
   \<and> \<not> DigitPasswordValidator (LengthValidator 0) []"
  using C10_empty_password [of "LengthValidator 0" CaseRule "[BareDecorator, CaseRule]"]
  by (simp add: LengthValidator_def)

end
